theory Spec2Isabelle
  imports Main
begin

unbundle bit_operations_syntax

section \<open>Go values used by package keyvalue\<close>

text \<open>
  A Go \<open>string\<close> is an immutable sequence of bytes, not necessarily valid UTF-8; it is
  modelled as a \<^typ>\<open>string\<close>, a list of 8-bit characters, and \<open>len(s)\<close> is the length of
  that list.  A \<open>rune\<close> is a signed integer; lengths and the counter \<open>n\<close> are Go \<open>int\<close>s.
  Both are modelled by \<^typ>\<open>int\<close>: every length added up below is the length of a string
  held in memory, and the buffer that receives \<open>n\<close> bytes has to exist as well, so the
  model takes memory, and with it \<open>int\<close>, as unbounded.

  A Go map is a reference that may be \<open>nil\<close>.  \<open>None\<close> is the nil map, \<open>Some m\<close> an
  allocated one with the entries of \<open>m\<close>.  Reading, measuring, deleting from and ranging
  over a nil map behave as on an empty map; assigning to an entry of a nil map panics.
\<close>

type_synonym rune = int

datatype panic =
    AssignmentToEntryInNilMap
  | NegativeCount

type_synonym Form = "(string \<rightharpoonup> string) option"

definition entries :: "Form \<Rightarrow> (string \<rightharpoonup> string)" where
  "entries f = (case f of None \<Rightarrow> Map.empty | Some m \<Rightarrow> m)"

text \<open>\<open>v, ok := f[key]\<close>: the lookup of a key, \<open>None\<close> when \<open>ok\<close> is false.\<close>

definition index_map :: "Form \<Rightarrow> string \<Rightarrow> string option" where
  "index_map f key = entries f key"

text \<open>\<open>len(f) == 0\<close>.\<close>

definition len_is_zero :: "Form \<Rightarrow> bool" where
  "len_is_zero f \<longleftrightarrow> dom (entries f) = {}"

text \<open>\<open>f[key] = value\<close>: panics on a nil map, otherwise stores in place.\<close>

definition assign_map :: "Form \<Rightarrow> string \<Rightarrow> string \<Rightarrow> panic + Form" where
  "assign_map f key val =
     (case f of None \<Rightarrow> Inl AssignmentToEntryInNilMap
      | Some m \<Rightarrow> Inr (Some (m(key \<mapsto> val))))"

text \<open>\<open>delete(f, key)\<close>: a no-op on a nil map and on an absent key.\<close>

definition delete_map :: "Form \<Rightarrow> string \<Rightarrow> Form" where
  "delete_map f key = (case f of None \<Rightarrow> None | Some m \<Rightarrow> Some (m(key := None)))"

text \<open>
  \<open>for k, v := range f\<close> visits every entry once, in an order the language leaves open
  and that can differ between two loops over the same map.  A loop therefore takes the
  order of its visits as an argument: a list of pairs that enumerates the map.
\<close>

definition range_order :: "Form \<Rightarrow> (string \<times> string) list \<Rightarrow> bool" where
  "range_order f ps \<longleftrightarrow> distinct (map fst ps) \<and> map_of ps = entries f"

section \<open>Package utf8: rune lengths and encoding\<close>

text \<open>
  The constants of package \<open>unicode/utf8\<close>, its \<open>RuneLen\<close> and its encoder
  (\<open>AppendRune\<close>), written after the Go standard library.  \<open>uint32(r)\<close> reads a rune as
  an unsigned 32-bit number; \<open>byte(x)\<close> keeps the low eight bits, as \<^const>\<open>char_of\<close> does.
\<close>

definition RuneError :: rune where "RuneError = 0xFFFD"
definition RuneSelf :: int where "RuneSelf = 0x80"
definition MaxRune :: rune where "MaxRune = 0x10FFFF"
definition UTFMax :: int where "UTFMax = 4"
definition surrogateMin :: rune where "surrogateMin = 0xD800"
definition surrogateMax :: rune where "surrogateMax = 0xDFFF"
definition rune1Max :: rune where "rune1Max = 0x7F"
definition rune2Max :: rune where "rune2Max = 0x7FF"
definition rune3Max :: rune where "rune3Max = 0xFFFF"

definition uint32 :: "int \<Rightarrow> int" where
  "uint32 r = r mod 2 ^ 32"

definition RuneLen :: "rune \<Rightarrow> int" where
  "RuneLen r =
     (if r < 0 then - 1
      else if r \<le> rune1Max then 1
      else if r \<le> rune2Max then 2
      else if surrogateMin \<le> r \<and> r \<le> surrogateMax then - 1
      else if r \<le> rune3Max then 3
      else if r \<le> MaxRune then 4
      else - 1)"

definition encode3 :: "rune \<Rightarrow> string" where
  "encode3 r = [char_of (0xE0 OR drop_bit 12 r),
                char_of (0x80 OR (drop_bit 6 r AND 0x3F)),
                char_of (0x80 OR (r AND 0x3F))]"

definition appendRuneNonASCII :: "string \<Rightarrow> rune \<Rightarrow> string" where
  "appendRuneNonASCII p r =
     (let i = uint32 r in
      if i \<le> rune2Max then
        p @ [char_of (0xC0 OR drop_bit 6 r), char_of (0x80 OR (r AND 0x3F))]
      else if i > MaxRune \<or> (surrogateMin \<le> i \<and> i \<le> surrogateMax) then
        p @ encode3 RuneError
      else if i \<le> rune3Max then
        p @ encode3 r
      else
        p @ [char_of (0xF0 OR drop_bit 18 r),
             char_of (0x80 OR (drop_bit 12 r AND 0x3F)),
             char_of (0x80 OR (drop_bit 6 r AND 0x3F)),
             char_of (0x80 OR (r AND 0x3F))])"

section \<open>Package utf8: decoding and validity\<close>

text \<open>
  The decoder of the Go standard library.  \<open>first\<close> is its table of 256 entries, indexed
  by the first byte of a sequence: the low three bits of an entry are the length of the
  sequence, the high four bits index \<open>acceptRanges\<close>, the range allowed for the second
  byte; \<open>as\<close> marks an ASCII byte and \<open>xx\<close> a byte that cannot start a sequence.
\<close>

definition byte :: "char \<Rightarrow> int" where
  "byte c = of_char c"

definition maskx :: int where "maskx = 0x3F"
definition mask2 :: int where "mask2 = 0x1F"
definition mask3 :: int where "mask3 = 0x0F"
definition mask4 :: int where "mask4 = 0x07"
definition locb :: int where "locb = 0x80"
definition hicb :: int where "hicb = 0xBF"

definition xx :: int where "xx = 0xF1"
definition as :: int where "as = 0xF0"
definition s1 :: int where "s1 = 0x02"
definition s2 :: int where "s2 = 0x13"
definition s3 :: int where "s3 = 0x03"
definition s4 :: int where "s4 = 0x23"
definition s5 :: int where "s5 = 0x34"
definition s6 :: int where "s6 = 0x04"
definition s7 :: int where "s7 = 0x44"

definition first :: "int \<Rightarrow> int" where
  "first b =
     (if b < 0x80 then as
      else if b < 0xC2 then xx
      else if b < 0xE0 then s1
      else if b = 0xE0 then s2
      else if b < 0xED then s3
      else if b = 0xED then s4
      else if b < 0xF0 then s3
      else if b = 0xF0 then s5
      else if b < 0xF4 then s6
      else if b = 0xF4 then s7
      else xx)"

definition acceptRanges :: "int \<Rightarrow> int \<times> int" where
  "acceptRanges i =
     (if i = 0 then (locb, hicb)
      else if i = 1 then (0xA0, hicb)
      else if i = 2 then (locb, 0x9F)
      else if i = 3 then (0x90, hicb)
      else if i = 4 then (locb, 0x8F)
      else (0, 0))"

text \<open>
  \<open>DecodeRuneInString\<close> returns the first rune of \<open>s\<close> and its width in bytes:
  \<open>(RuneError, 0)\<close> for the empty string, \<open>(RuneError, 1)\<close> when the encoding is invalid.
  In the first branch \<open>mask\<close> is \<open>rune(x) << 31 >> 31\<close> on 32 bits: the lowest bit of \<open>x\<close>
  spread over the whole word.
\<close>

definition DecodeRuneInString :: "string \<Rightarrow> rune \<times> int" where
  "DecodeRuneInString s =
     (let n = int (length s) in
      if n < 1 then (RuneError, 0)
      else
        let b0 = byte (s ! 0); x = first b0 in
        if x \<ge> as then
          (let mask = - (x AND 1) in ((b0 AND NOT mask) OR (RuneError AND mask), 1))
        else
          let sz = x AND 7; accept = acceptRanges (drop_bit 4 x) in
          if n < sz then (RuneError, 1)
          else
            let b1 = byte (s ! 1) in
            if b1 < fst accept \<or> snd accept < b1 then (RuneError, 1)
            else if sz \<le> 2 then (push_bit 6 (b0 AND mask2) OR (b1 AND maskx), 2)
            else
              let b2 = byte (s ! 2) in
              if b2 < locb \<or> hicb < b2 then (RuneError, 1)
              else if sz \<le> 3 then
                (push_bit 12 (b0 AND mask3) OR push_bit 6 (b1 AND maskx) OR (b2 AND maskx), 3)
              else
                let b3 = byte (s ! 3) in
                if b3 < locb \<or> hicb < b3 then (RuneError, 1)
                else
                  (push_bit 18 (b0 AND mask4) OR push_bit 12 (b1 AND maskx)
                     OR push_bit 6 (b2 AND maskx) OR (b3 AND maskx), 4))"

text \<open>
  \<open>ValidString\<close> reports whether \<open>s\<close> consists entirely of valid UTF-8-encoded runes: the
  string is decoded rune after rune, and a decoding of width 1 that yields \<open>RuneError\<close>
  is an invalid byte.
\<close>

fun ValidString :: "string \<Rightarrow> bool" where
  "ValidString [] = True"
| "ValidString (c # cs) =
     (case DecodeRuneInString (c # cs) of
        (r, w) \<Rightarrow>
          if r = RuneError \<and> w = 1 then False
          else ValidString (drop (nat w - 1) cs))"

definition RuneStart :: "int \<Rightarrow> bool" where
  "RuneStart b \<longleftrightarrow> b AND 0xC0 \<noteq> 0x80"

definition ValidRune :: "rune \<Rightarrow> bool" where
  "ValidRune r \<longleftrightarrow> (0 \<le> r \<and> r < surrogateMin) \<or> (surrogateMax < r \<and> r \<le> MaxRune)"

text \<open>
  The backward loop of \<open>DecodeLastRuneInString\<close>:
  \<open>for start--; start >= lim; start-- { if RuneStart(s[start]) { break } }\<close>,
  called with \<open>start\<close> already decremented once.
\<close>

function scan_back :: "string \<Rightarrow> int \<Rightarrow> int \<Rightarrow> int" where
  "scan_back s lim start =
     (if start \<ge> lim then
        (if RuneStart (byte (s ! nat start)) then start else scan_back s lim (start - 1))
      else start)"
  by pat_completeness auto
termination
  by (relation "measure (\<lambda>(s, lim, start). nat (start - lim + 1))") auto

definition DecodeLastRuneInString :: "string \<Rightarrow> rune \<times> int" where
  "DecodeLastRuneInString s =
     (let e = int (length s) in
      if e = 0 then (RuneError, 0)
      else
        let start = e - 1; r = byte (s ! nat start) in
        if r < RuneSelf then (r, 1)
        else
          let lim = (if e - UTFMax < 0 then 0 else e - UTFMax);
              start1 = scan_back s lim (start - 1);
              start2 = (if start1 < 0 then 0 else start1)
          in case DecodeRuneInString (drop (nat start2) s) of
               (r, w) \<Rightarrow> if start2 + w \<noteq> e then (RuneError, 1) else (r, w))"

section \<open>Package unicode: IsSpace\<close>

text \<open>
  \<open>IsSpace\<close> decides the Latin-1 range by a switch and every other rune by the table
  \<open>White_Space\<close> of the Unicode data, whose entries above Latin-1 are listed here.
\<close>

definition MaxLatin1 :: rune where "MaxLatin1 = 0xFF"

definition White_Space_excluding_Latin :: "rune \<Rightarrow> bool" where
  "White_Space_excluding_Latin r \<longleftrightarrow>
     r = 0x1680 \<or> (0x2000 \<le> r \<and> r \<le> 0x200A) \<or> (0x2028 \<le> r \<and> r \<le> 0x2029)
     \<or> r = 0x202F \<or> r = 0x205F \<or> r = 0x3000"

definition IsSpace :: "rune \<Rightarrow> bool" where
  "IsSpace r =
     (if uint32 r \<le> MaxLatin1 then
        r = 0x09 \<or> r = 0x0A \<or> r = 0x0B \<or> r = 0x0C \<or> r = 0x0D \<or> r = 0x20
        \<or> r = 0x85 \<or> r = 0xA0
      else White_Space_excluding_Latin r)"

section \<open>Package strings: ContainsRune\<close>

fun IndexByteString :: "string \<Rightarrow> char \<Rightarrow> int" where
  "IndexByteString [] c = - 1"
| "IndexByteString (x # xs) c =
     (if x = c then 0
      else let i = IndexByteString xs c in if i < 0 then - 1 else i + 1)"

text \<open>The index of the first position whose decoding is \<open>RuneError\<close>, or \<open>-1\<close>.\<close>

fun IndexRuneError :: "string \<Rightarrow> int" where
  "IndexRuneError [] = - 1"
| "IndexRuneError (c # cs) =
     (case DecodeRuneInString (c # cs) of
        (r, w) \<Rightarrow>
          if r = RuneError then 0
          else let i = IndexRuneError (drop (nat w - 1) cs)
               in if i < 0 then - 1 else i + w)"

text \<open>The index of the first occurrence of \<open>sub\<close> in \<open>s\<close>, or \<open>-1\<close>.\<close>

fun Index :: "string \<Rightarrow> string \<Rightarrow> int" where
  "Index [] sub = (if sub = [] then 0 else - 1)"
| "Index (x # xs) sub =
     (if take (length sub) (x # xs) = sub then 0
      else let i = Index xs sub in if i < 0 then - 1 else i + 1)"

definition IndexRune :: "string \<Rightarrow> rune \<Rightarrow> int" where
  "IndexRune s r =
     (if 0 \<le> r \<and> r < RuneSelf then IndexByteString s (char_of r)
      else if r = RuneError then IndexRuneError s
      else if \<not> ValidRune r then - 1
      else Index s (appendRuneNonASCII [] r))"

definition ContainsRune :: "string \<Rightarrow> rune \<Rightarrow> bool" where
  "ContainsRune s r \<longleftrightarrow> IndexRune s r \<ge> 0"

section \<open>bytes.Buffer\<close>

text \<open>
  A buffer is the string written so far; its capacity is not modelled.  \<open>Grow(n)\<close> only
  reserves room, and panics when \<open>n\<close> is negative.
\<close>

definition WriteString :: "string \<Rightarrow> string \<Rightarrow> string" where
  "WriteString buf s = buf @ s"

definition WriteRune :: "string \<Rightarrow> rune \<Rightarrow> string" where
  "WriteRune buf r =
     (if uint32 r < RuneSelf then buf @ [char_of r] else appendRuneNonASCII buf r)"

definition Len :: "string \<Rightarrow> int" where
  "Len buf = int (length buf)"

definition Grow :: "string \<Rightarrow> int \<Rightarrow> panic + string" where
  "Grow buf n = (if n < 0 then Inl NegativeCount else Inr buf)"

section \<open>Constants of package keyvalue\<close>

definition colon :: rune where "colon = 0x3A"
definition comma :: rune where "comma = 0x2C"
definition newline :: string where "newline = [CHR 0x0A]"
definition prefix :: string where "prefix = ''openid.''"

section \<open>Form: Get, Set, Del\<close>

definition Form_Get :: "Form \<Rightarrow> string \<Rightarrow> string" where
  "Form_Get f key =
     (if f = None then ''''
      else case index_map f key of
             None \<Rightarrow> ''''
           | Some v \<Rightarrow> if length v = 0 then '''' else v)"

definition Form_Set :: "Form \<Rightarrow> string \<Rightarrow> string \<Rightarrow> panic + Form" where
  "Form_Set f key val = assign_map f key val"

definition Form_Del :: "Form \<Rightarrow> string \<Rightarrow> Form" where
  "Form_Del f key = delete_map f key"

section \<open>Form: Validate\<close>

text \<open>
  An \<open>error\<close> is the message that \<open>fmt.Errorf\<close> formats; the verb \<open>%s\<close> inserts the
  string as it is.  \<open>None\<close> is the nil error.  \<open>Validate_entry\<close> is the body of the loop
  for one pair: \<open>Some e\<close> is \<open>return e\<close>, \<open>None\<close> goes on to the next pair.
\<close>

type_synonym error = string

definition quoted :: "string \<Rightarrow> string" where
  "quoted s = [CHR 0x22] @ s @ [CHR 0x22]"

definition Validate_entry :: "string \<Rightarrow> string \<Rightarrow> error option" where
  "Validate_entry k v =
     (if length v = 0 then Some (''Empty value for key '' @ quoted k)
      else if \<not> ValidString k then
        Some ''key must consists of valid UTF-8-encoded runes.''
      else if \<not> ValidString v then
        Some ''value must consists of valid UTF-8-encoded runes.''
      else if ContainsRune k 0x0A \<or> ContainsRune k 0x3A then
        Some (''key contains a new line or colon '' @ quoted k)
      else if IsSpace (fst (DecodeLastRuneInString k)) then
        Some (''whitespace at end of key '' @ quoted k)
      else if IsSpace (fst (DecodeRuneInString k)) then
        Some (''whitespace at beginning of key '' @ quoted k)
      else if IsSpace (fst (DecodeLastRuneInString v)) then
        Some (''whitespace at beginning of value '' @ quoted v)
      else if IsSpace (fst (DecodeRuneInString v)) then
        Some (''whitespace at end of value '' @ quoted v)
      else None)"

fun Validate_range :: "(string \<times> string) list \<Rightarrow> error option" where
  "Validate_range [] = None"
| "Validate_range ((k, v) # ps) =
     (case Validate_entry k v of
        Some e \<Rightarrow> Some e
      | None \<Rightarrow> Validate_range ps)"

text \<open>The pairs \<open>ps\<close> are the entries of \<open>f\<close> in the order of this run of the loop.\<close>

definition Form_Validate :: "Form \<Rightarrow> (string \<times> string) list \<Rightarrow> error option" where
  "Form_Validate f ps = Validate_range ps"

section \<open>Form: String\<close>

text \<open>
  \<open>String\<close> ranges over the map twice: once to add up the length to reserve, once to
  write.  Each loop has its own order of visits.
\<close>

fun String_count :: "(string \<times> string) list \<Rightarrow> int \<Rightarrow> int" where
  "String_count [] n = n"
| "String_count ((k, v) # ps) n =
     String_count ps (n + (int (length k) + int (length v) + RuneLen colon + int (length newline)))"

fun String_write :: "(string \<times> string) list \<Rightarrow> string \<Rightarrow> string" where
  "String_write [] buf = buf"
| "String_write ((k, v) # ps) buf =
     String_write ps
       (WriteString (WriteString (WriteRune (WriteString buf k) colon) v) newline)"

definition Form_String ::
  "Form \<Rightarrow> (string \<times> string) list \<Rightarrow> (string \<times> string) list \<Rightarrow> panic + string" where
  "Form_String f ps1 ps2 =
     (if f = None \<or> len_is_zero f then Inr ''''
      else case Grow [] (String_count ps1 0) of
             Inl p \<Rightarrow> Inl p
           | Inr buf \<Rightarrow> Inr (String_write ps2 buf))"

section \<open>SignedForm\<close>

text \<open>
  A \<open>SignedForm\<close> embeds a \<open>Form\<close> and adds the ordered list of the names to sign.  Its
  methods have pointer receivers; they are modelled on the struct the pointer refers to.
\<close>

record SignedForm =
  Form :: Form
  Fields :: "string list"

fun SignedFields_count :: "string list \<Rightarrow> int \<Rightarrow> int" where
  "SignedFields_count [] n = n"
| "SignedFields_count (k # ks) n = SignedFields_count ks (n + int (length k))"

fun SignedFields_write :: "int \<Rightarrow> string list \<Rightarrow> string \<Rightarrow> string" where
  "SignedFields_write n [] buf = buf"
| "SignedFields_write n (k # ks) buf =
     (let buf1 = WriteString buf k;
          buf2 = (if Len buf1 < n then WriteRune buf1 comma else buf1)
      in SignedFields_write n ks buf2)"

definition SignedFields :: "SignedForm \<Rightarrow> panic + string" where
  "SignedFields s =
     (if length (Fields s) = 0 then Inr ''''
      else
        let n0 = SignedFields_count (Fields s) 0;
            n = n0 + RuneLen comma * (int (length (Fields s)) - 1)
        in case Grow [] n of
             Inl p \<Rightarrow> Inl p
           | Inr buf \<Rightarrow> Inr (SignedFields_write n (Fields s) buf))"

text \<open>
  The first loop of \<open>SignedString\<close> returns the empty string from inside the loop when a
  listed key is missing or stored empty: \<open>None\<close> is that early return, \<open>Some n\<close> the
  length to reserve.
\<close>

fun SignedString_count :: "Form \<Rightarrow> string list \<Rightarrow> int \<Rightarrow> int option" where
  "SignedString_count f [] n = Some n"
| "SignedString_count f (k # ks) n =
     (case index_map f k of
        None \<Rightarrow> None
      | Some v \<Rightarrow>
          if length v = 0 then None
          else SignedString_count f ks
                 (n + (int (length prefix) + int (length k) + int (length v)
                       + RuneLen colon + int (length newline))))"

fun SignedString_write :: "Form \<Rightarrow> string list \<Rightarrow> string \<Rightarrow> string" where
  "SignedString_write f [] buf = buf"
| "SignedString_write f (k # ks) buf =
     SignedString_write f ks
       (WriteString
         (WriteString (WriteRune (WriteString (WriteString buf prefix) k) colon) (Form_Get f k))
         newline)"

definition SignedString :: "SignedForm \<Rightarrow> panic + string" where
  "SignedString s =
     (let f = Form s in
      if f = None \<or> len_is_zero f then Inr ''''
      else case SignedString_count f (Fields s) 0 of
             None \<Rightarrow> Inr ''''
           | Some n \<Rightarrow>
               (case Grow [] n of
                  Inl p \<Rightarrow> Inl p
                | Inr buf \<Rightarrow> Inr (SignedString_write f (Fields s) buf)))"

section \<open>Message\<close>

text \<open>
  The second map type of the package, with its own copies of the constants and of the
  five methods.
\<close>

type_synonym Message = "(string \<rightharpoonup> string) option"

definition Message_colon :: rune where "Message_colon = 0x3A"
definition Message_newline :: string where "Message_newline = [CHR 0x0A]"

definition Message_Get :: "Message \<Rightarrow> string \<Rightarrow> string" where
  "Message_Get m key =
     (if m = None then ''''
      else case index_map m key of
             None \<Rightarrow> ''''
           | Some v \<Rightarrow> if length v = 0 then '''' else v)"

definition Message_Set :: "Message \<Rightarrow> string \<Rightarrow> string \<Rightarrow> panic + Message" where
  "Message_Set m key val = assign_map m key val"

definition Message_Del :: "Message \<Rightarrow> string \<Rightarrow> Message" where
  "Message_Del m key = delete_map m key"

definition Message_Validate_entry :: "string \<Rightarrow> string \<Rightarrow> error option" where
  "Message_Validate_entry k v =
     (if length v = 0 then Some (''Empty value for key '' @ quoted k)
      else if \<not> ValidString k then
        Some ''key must consists of valid UTF-8-encoded runes.''
      else if \<not> ValidString v then
        Some ''value must consists of valid UTF-8-encoded runes.''
      else if ContainsRune k 0x0A \<or> ContainsRune k 0x3A then
        Some (''key contains a new line or colon '' @ quoted k)
      else if IsSpace (fst (DecodeLastRuneInString k)) then
        Some (''whitespace at end of key '' @ quoted k)
      else if IsSpace (fst (DecodeRuneInString k)) then
        Some (''whitespace at beginning of key '' @ quoted k)
      else if IsSpace (fst (DecodeLastRuneInString v)) then
        Some (''whitespace at beginning of value '' @ quoted v)
      else if IsSpace (fst (DecodeRuneInString v)) then
        Some (''whitespace at end of value '' @ quoted v)
      else None)"

fun Message_Validate_range :: "(string \<times> string) list \<Rightarrow> error option" where
  "Message_Validate_range [] = None"
| "Message_Validate_range ((k, v) # ps) =
     (case Message_Validate_entry k v of
        Some e \<Rightarrow> Some e
      | None \<Rightarrow> Message_Validate_range ps)"

definition Message_Validate :: "Message \<Rightarrow> (string \<times> string) list \<Rightarrow> error option" where
  "Message_Validate m ps = Message_Validate_range ps"

fun Message_String_count :: "(string \<times> string) list \<Rightarrow> int \<Rightarrow> int" where
  "Message_String_count [] n = n"
| "Message_String_count ((k, v) # ps) n =
     Message_String_count ps
       (n + (int (length k) + int (length v) + RuneLen Message_colon
             + int (length Message_newline)))"

fun Message_String_write :: "(string \<times> string) list \<Rightarrow> string \<Rightarrow> string" where
  "Message_String_write [] buf = buf"
| "Message_String_write ((k, v) # ps) buf =
     Message_String_write ps
       (WriteString (WriteString (WriteRune (WriteString buf k) Message_colon) v)
          Message_newline)"

definition Message_String ::
  "Message \<Rightarrow> (string \<times> string) list \<Rightarrow> (string \<times> string) list \<Rightarrow> panic + string" where
  "Message_String m ps1 ps2 =
     (if m = None \<or> len_is_zero m then Inr ''''
      else case Grow [] (Message_String_count ps1 0) of
             Inl p \<Rightarrow> Inl p
           | Inr buf \<Rightarrow> Inr (Message_String_write ps2 buf))"

section \<open>The serializations as the specification words them\<close>

text \<open>One line of the wire format, and one line of the signed form.\<close>

definition kv_line :: "string \<times> string \<Rightarrow> string" where
  "kv_line p = fst p @ '':'' @ snd p @ ''\<newline>''"

definition signed_line :: "string \<Rightarrow> string \<Rightarrow> string" where
  "signed_line k v = ''openid.'' @ k @ '':'' @ v @ ''\<newline>''"

text \<open>Names joined by a single comma between consecutive names.\<close>

fun comma_joined :: "string list \<Rightarrow> string" where
  "comma_joined [] = ''''"
| "comma_joined [k] = k"
| "comma_joined (k # k' # ks) = k @ '','' @ comma_joined (k' # ks)"

section \<open>The rules of validation as the specification words them\<close>

text \<open>
  The characters of a string are the runes that decoding it from left to right yields,
  as \<open>for _, r := range s\<close> does.
\<close>

fun runes :: "string \<Rightarrow> rune list" where
  "runes [] = []"
| "runes (c # cs) =
     (case DecodeRuneInString (c # cs) of (r, w) \<Rightarrow> r # runes (drop (nat w - 1) cs))"

definition first_char :: "string \<Rightarrow> rune option" where
  "first_char s = (case runes s of [] \<Rightarrow> None | r # rs \<Rightarrow> Some r)"

definition last_char :: "string \<Rightarrow> rune option" where
  "last_char s = (case runes s of [] \<Rightarrow> None | r # rs \<Rightarrow> Some (last (r # rs)))"

definition is_whitespace :: "rune option \<Rightarrow> bool" where
  "is_whitespace c = (case c of None \<Rightarrow> False | Some r \<Rightarrow> IsSpace r)"

definition surrounded_by_whitespace :: "string \<Rightarrow> bool" where
  "surrounded_by_whitespace s \<longleftrightarrow> is_whitespace (first_char s) \<or> is_whitespace (last_char s)"

text \<open>The forbidden characters of a key, as bytes of the string.\<close>

definition has_colon_or_newline :: "string \<Rightarrow> bool" where
  "has_colon_or_newline s \<longleftrightarrow> CHR '':'' \<in> set s \<or> CHR 0x0A \<in> set s"

text \<open>A pair violates a rule of section 4.2.\<close>

definition violates :: "string \<Rightarrow> string \<Rightarrow> bool" where
  "violates k v \<longleftrightarrow>
     v = '''' \<or> \<not> ValidString k \<or> \<not> ValidString v \<or> has_colon_or_newline k
     \<or> surrounded_by_whitespace k \<or> surrounded_by_whitespace v"

text \<open>A colon or a newline strictly inside a string: neither its first nor its last byte.\<close>

definition has_interior_colon_or_newline :: "string \<Rightarrow> bool" where
  "has_interior_colon_or_newline s \<longleftrightarrow> has_colon_or_newline (butlast (tl s))"

text \<open>A continuation byte of a sequence of several bytes.\<close>

definition cont :: "char \<Rightarrow> bool" where
  "cont c \<longleftrightarrow> 0x80 \<le> byte c \<and> byte c \<le> 0xBF"

section \<open>Properties of the accessors\<close>

text \<open>
  C7.  For every Form, the nil Form included, and every key, \<open>Get\<close> returns the empty
  string when the key is absent or stored with the empty string, and the stored value
  otherwise; so a key stored with the empty value and the same key deleted give the same
  answer.
\<close>

theorem Form_Get_absent_or_empty:
  "(index_map f key = None \<longrightarrow> Form_Get f key = '''')
   \<and> (index_map f key = Some '''' \<longrightarrow> Form_Get f key = '''')
   \<and> (\<forall>v. index_map f key = Some v \<and> v \<noteq> '''' \<longrightarrow> Form_Get f key = v)
   \<and> Form_Get None key = ''''
   \<and> Form_Get (Some (m(key \<mapsto> ''''))) key = Form_Get (Some (m(key := None))) key"
  by (auto simp: Form_Get_def index_map_def entries_def split: option.splits)

theorem Form_Get_absent_or_empty_witness:
  "Form_Get (Some [''mode'' \<mapsto> ''error'']) ''ns'' = ''''
   \<and> Form_Get (Some [''mode'' \<mapsto> '''']) ''mode'' = ''''
   \<and> Form_Get (Some [''mode'' \<mapsto> ''error'']) ''mode'' = ''error''
   \<and> Form_Get (Some [''mode'' \<mapsto> '''']) ''mode''
       = Form_Get (Some ([''mode'' \<mapsto> ''error''](''mode'' := None))) ''mode''"
  using Form_Get_absent_or_empty [of "Some [''mode'' \<mapsto> ''error'']" "''ns''" "Map.empty"]
    Form_Get_absent_or_empty [of "Some [''mode'' \<mapsto> '''']" "''mode''" "[''mode'' \<mapsto> ''error'']"]
    Form_Get_absent_or_empty [of "Some [''mode'' \<mapsto> ''error'']" "''mode''" "Map.empty"]
  by (simp add: index_map_def entries_def)

text \<open>
  C8, as the claim states it, fails: \<open>Set\<close> on a nil Form is an assignment to an entry of a
  nil map, which panics.
\<close>

theorem Form_Set_nil_panics:
  "Form_Set None ''foo'' ''bar'' = Inl AssignmentToEntryInNilMap"
  by (simp add: Form_Set_def assign_map_def)

text \<open>
  C8, amended.  \<open>Get\<close> and \<open>Del\<close> never fail, on any Form, nil included: \<open>Get\<close> returns the
  stored value or the empty string, \<open>Del\<close> removes the entry and changes nothing when the
  key is absent or the Form is nil.  \<open>Set\<close> on an allocated (non-nil) Form never fails and
  inserts or overwrites the entry, leaving every other key as it was.
\<close>

theorem Form_accessors_total:
  "Form_Get f key = (case index_map f key of None \<Rightarrow> '''' | Some v \<Rightarrow> v)
   \<and> index_map (Form_Del f key) key = None
   \<and> (\<forall>k. k \<noteq> key \<longrightarrow> index_map (Form_Del f key) k = index_map f k)
   \<and> (Form_Del f key = None \<longleftrightarrow> f = None)
   \<and> (index_map f key = None \<longrightarrow> Form_Del f key = f)
   \<and> Form_Set (Some m) key val = Inr (Some (m(key \<mapsto> val)))
   \<and> (\<forall>f'. Form_Set (Some m) key val = Inr f' \<longrightarrow>
         index_map f' key = Some val
         \<and> (\<forall>k. k \<noteq> key \<longrightarrow> index_map f' k = index_map (Some m) k))"
  by (auto simp: Form_Get_def Form_Del_def Form_Set_def index_map_def entries_def
        assign_map_def delete_map_def fun_upd_idem_iff split: option.splits)

theorem Form_accessors_total_witness:
  "Form_Get None ''foo'' = ''''
   \<and> Form_Del None ''foo'' = None
   \<and> Form_Del (Some [''foo'' \<mapsto> ''bar'']) ''baz'' = Some [''foo'' \<mapsto> ''bar'']
   \<and> index_map (Form_Del (Some [''foo'' \<mapsto> ''bar'']) ''foo'') ''foo'' = None
   \<and> Form_Set (Some Map.empty) ''foo'' ''bar'' = Inr (Some [''foo'' \<mapsto> ''bar''])
   \<and> Form_Set (Some [''foo'' \<mapsto> ''bar'']) ''foo'' ''baz'' = Inr (Some [''foo'' \<mapsto> ''baz''])"
  using Form_accessors_total [of None "''foo''" Map.empty "''bar''"]
    Form_accessors_total [of "Some [''foo'' \<mapsto> ''bar'']" "''baz''" Map.empty "''bar''"]
    Form_accessors_total [of "Some [''foo'' \<mapsto> ''bar'']" "''foo''" "[''foo'' \<mapsto> ''bar'']" "''baz''"]
  by (simp add: index_map_def entries_def)

section \<open>Writing the constant runes\<close>

lemma WriteRune_colon: "WriteRune buf colon = buf @ '':''"
  by (simp add: WriteRune_def colon_def uint32_def RuneSelf_def char_of_def)

lemma WriteRune_comma: "WriteRune buf comma = buf @ '',''"
  by (simp add: WriteRune_def comma_def uint32_def RuneSelf_def char_of_def)

lemma RuneLen_colon: "RuneLen colon = 1"
  by (simp add: RuneLen_def colon_def rune1Max_def)

lemma RuneLen_comma: "RuneLen comma = 1"
  by (simp add: RuneLen_def comma_def rune1Max_def)

section \<open>An enumeration of a map\<close>

lemma range_order_graph:
  assumes "range_order f ps"
  shows "distinct ps" and "set ps = Map.graph (entries f)"
    and "length ps = card (dom (entries f))"
proof -
  from assms have d: "distinct (map fst ps)" and m: "map_of ps = entries f"
    by (simp_all add: range_order_def)
  from d show "distinct ps" by (rule distinct_map [THEN iffD1, THEN conjunct1])
  have "\<And>a b. (a, b) \<in> set ps \<longleftrightarrow> map_of ps a = Some b"
    using d by (auto dest: map_of_SomeD intro: map_of_is_SomeI)
  then show "set ps = Map.graph (entries f)"
    unfolding m Map.graph_def by auto
  have "dom (entries f) = set (map fst ps)"
    using m by (metis dom_map_of_conv_image_fst set_map)
  with d show "length ps = card (dom (entries f))"
    by (metis distinct_card length_map)
qed

section \<open>Plain serialization\<close>

lemma String_count_mono: "n \<le> String_count ps n"
proof (induction ps arbitrary: n)
  case Nil
  show ?case by simp
next
  case (Cons p ps)
  obtain k v where p: "p = (k, v)" by (cases p)
  have "n \<le> n + (int (length k) + int (length v) + RuneLen colon + int (length newline))"
    by (simp add: RuneLen_colon)
  also have "\<dots> \<le> String_count ps \<dots>" by (rule Cons.IH)
  finally show ?case by (simp add: p)
qed

lemma String_write_lines: "String_write ps buf = buf @ concat (map kv_line ps)"
  by (induction ps arbitrary: buf)
     (auto simp: WriteString_def WriteRune_colon newline_def kv_line_def)

text \<open>
  C4.  \<open>String\<close> of a nil or empty Form is the empty string.  For a non-empty Form it is
  the concatenation of the lines \<open>key:value\<newline>\<close> of the entries in the order in which
  the writing loop visits them; that order lists every entry of the Form exactly once,
  so there is one line per entry.
\<close>

theorem Form_String_lines:
  "(f = None \<or> len_is_zero f \<longrightarrow> Form_String f ps1 ps2 = Inr '''')
   \<and> (\<not> len_is_zero f \<and> range_order f ps1 \<and> range_order f ps2 \<longrightarrow>
        Form_String f ps1 ps2 = Inr (concat (map kv_line ps2))
        \<and> distinct ps2 \<and> set ps2 = Map.graph (entries f)
        \<and> length ps2 = card (dom (entries f)))"
proof -
  have "0 \<le> String_count ps1 0" by (rule String_count_mono)
  then have "\<not> len_is_zero f \<Longrightarrow> Form_String f ps1 ps2 = Inr (concat (map kv_line ps2))"
    by (auto simp: Form_String_def Grow_def String_write_lines len_is_zero_def entries_def)
  then show ?thesis
    by (auto simp: Form_String_def dest: range_order_graph)
qed

theorem Form_String_lines_witness:
  "Form_String None [] [] = Inr ''''
   \<and> Form_String (Some Map.empty) [] [] = Inr ''''
   \<and> \<not> len_is_zero (Some [''foo'' \<mapsto> ''bar''])
   \<and> range_order (Some [''foo'' \<mapsto> ''bar'']) [(''foo'', ''bar'')]
   \<and> Form_String (Some [''foo'' \<mapsto> ''bar'']) [(''foo'', ''bar'')] [(''foo'', ''bar'')]
       = Inr ''foo:bar\<newline>''"
  using Form_String_lines [of None "[]" "[]"]
    Form_String_lines [of "Some Map.empty" "[]" "[]"]
    Form_String_lines [of "Some [''foo'' \<mapsto> ''bar'']" "[(''foo'', ''bar'')]" "[(''foo'', ''bar'')]"]
  by (simp add: len_is_zero_def entries_def range_order_def kv_line_def)

section \<open>The list of signed fields\<close>

lemma SignedFields_count_sum:
  "SignedFields_count ks n = n + int (length (concat ks))"
  by (induction ks arbitrary: n) auto

text \<open>
  The writing loop: when \<open>n\<close> is the length already written plus the lengths of the names
  still to come plus one comma between each two of them, the buffer stays shorter than
  \<open>n\<close> exactly until the last name has been written.
\<close>

lemma SignedFields_write_joined:
  "ks \<noteq> [] \<Longrightarrow> n = Len buf + int (length (concat ks)) + (int (length ks) - 1)
     \<Longrightarrow> SignedFields_write n ks buf = buf @ comma_joined ks"
proof (induction ks arbitrary: buf)
  case Nil
  then show ?case by simp
next
  case (Cons k ks)
  show ?case
  proof (cases ks)
    case Nil
    with Cons.prems show ?thesis
      by (simp add: WriteString_def Len_def)
  next
    case (Cons k' ks')
    have "SignedFields_write n ks (buf @ k @ '','') = (buf @ k @ '','') @ comma_joined ks"
      using Cons.prems Cons by (intro Cons.IH) (simp_all add: Len_def)
    with Cons Cons.prems show ?thesis
      by (simp add: WriteString_def Len_def WriteRune_comma)
  qed
qed

lemma comma_joined_length:
  "ks \<noteq> [] \<Longrightarrow> length (comma_joined ks) = length (concat ks) + (length ks - 1)"
  by (induction ks rule: comma_joined.induct) auto

text \<open>
  C5.  For every SignedForm, whatever its field names (empty names and names that contain
  commas included), \<open>SignedFields\<close> returns the names joined by one comma between
  consecutive names, in the order of the list, with no separator before the first and
  none after the last name: the result is as long as the names together plus one comma
  for each name but the last.  The empty list gives the empty string.
\<close>

theorem SignedFields_comma_joined:
  "SignedFields s = Inr (comma_joined (Fields s))
   \<and> (Fields s \<noteq> [] \<longrightarrow>
        length (comma_joined (Fields s))
          = length (concat (Fields s)) + (length (Fields s) - 1))"
proof -
  have "SignedFields s = Inr (comma_joined (Fields s))"
  proof (cases "Fields s")
    case Nil
    then show ?thesis by (simp add: SignedFields_def)
  next
    case (Cons k ks)
    then have ne: "Fields s \<noteq> []" by simp
    define n where "n = int (length (concat (Fields s))) + (int (length (Fields s)) - 1)"
    have n_eq:
      "SignedFields_count (Fields s) 0 + RuneLen comma * (int (length (Fields s)) - 1) = n"
      by (simp add: SignedFields_count_sum RuneLen_comma n_def)
    have "0 \<le> n" using ne by (cases "Fields s") (simp_all add: n_def)
    moreover have "SignedFields_write n (Fields s) [] = comma_joined (Fields s)"
      using SignedFields_write_joined [OF ne, of n "[]"] by (simp add: n_def Len_def)
    ultimately show ?thesis
      using ne by (simp add: SignedFields_def n_eq Grow_def Let_def)
  qed
  then show ?thesis by (simp add: comma_joined_length)
qed

theorem SignedFields_comma_joined_witness:
  "SignedFields \<lparr>Form = Some [''foo'' \<mapsto> ''bar'', ''santa'' \<mapsto> ''banta''],
                  Fields = [''santa'', ''foo'']\<rparr> = Inr ''santa,foo''
   \<and> SignedFields \<lparr>Form = Some [''foo'' \<mapsto> ''bar''], Fields = [''foo'']\<rparr> = Inr ''foo''
   \<and> SignedFields \<lparr>Form = None, Fields = []\<rparr> = Inr ''''
   \<and> SignedFields \<lparr>Form = None, Fields = ['''', ''a'', '''']\<rparr> = Inr '',a,''"
  using SignedFields_comma_joined [of "\<lparr>Form = Some [''foo'' \<mapsto> ''bar'', ''santa'' \<mapsto> ''banta''],
                  Fields = [''santa'', ''foo'']\<rparr>"]
    SignedFields_comma_joined [of "\<lparr>Form = Some [''foo'' \<mapsto> ''bar''], Fields = [''foo'']\<rparr>"]
    SignedFields_comma_joined [of "\<lparr>Form = None, Fields = []\<rparr>"]
    SignedFields_comma_joined [of "\<lparr>Form = None, Fields = ['''', ''a'', '''']\<rparr>"]
  by simp

section \<open>The signed serialization\<close>

lemma SignedString_count_missing:
  "\<exists>k\<in>set ks. index_map f k = None \<or> index_map f k = Some '''' \<Longrightarrow>
     SignedString_count f ks n = None"
  by (induction ks arbitrary: n) (auto split: option.splits)

lemma SignedString_count_present:
  "\<forall>k\<in>set ks. \<exists>v. index_map f k = Some v \<and> v \<noteq> '''' \<Longrightarrow> n \<ge> 0 \<Longrightarrow>
    \<exists>n'. SignedString_count f ks n = Some n' \<and> 0 \<le> n'"
proof (induction ks arbitrary: n)
  case Nil
  then show ?case by simp
next
  case (Cons k ks)
  then obtain v where v: "index_map f k = Some v" "v \<noteq> ''''" by auto
  have "0 \<le> n + (int (length prefix) + int (length k) + int (length v)
                       + RuneLen colon + int (length newline))"
    using Cons.prems(2) by (simp add: RuneLen_colon)
  from Cons.IH [OF _ this] Cons.prems(1) v show ?case by simp
qed

lemma SignedString_write_lines:
  "f \<noteq> None \<Longrightarrow> \<forall>k\<in>set ks. \<exists>v. index_map f k = Some v \<and> v \<noteq> '''' \<Longrightarrow>
    SignedString_write f ks buf
      = buf @ concat (map (\<lambda>k. signed_line k (the (index_map f k))) ks)"
  by (induction ks arbitrary: buf)
     (auto simp: WriteString_def WriteRune_colon newline_def prefix_def signed_line_def Form_Get_def)

text \<open>
  C1.  For every SignedForm whose Form is not empty and whose listed names are all keys
  of the Form with a non-empty value, \<open>SignedString\<close> returns the concatenation, in the
  order of the field list, of \<open>openid.\<close> + name + \<open>:\<close> + value + newline.  The result
  depends on the Form only through the lookups of the listed names, so no order of the
  map enters it.
\<close>

theorem SignedString_in_field_order:
  assumes "\<not> len_is_zero (Form s)"
    and "\<forall>k\<in>set (Fields s). \<exists>v. index_map (Form s) k = Some v \<and> v \<noteq> ''''"
  shows "SignedString s
          = Inr (concat (map (\<lambda>k. signed_line k (the (index_map (Form s) k))) (Fields s)))"
proof -
  from assms(1) have nn: "Form s \<noteq> None"
    by (auto simp: len_is_zero_def entries_def)
  from SignedString_count_present [OF assms(2), of 0]
  obtain n where n: "SignedString_count (Form s) (Fields s) 0 = Some n" "0 \<le> n" by auto
  from nn obtain m where m: "Form s = Some m" by auto
  have "SignedString s = Inr (SignedString_write (Form s) (Fields s) [])"
    using assms(1) n unfolding m by (simp add: SignedString_def Grow_def Let_def m)
  then show ?thesis
    by (simp only: SignedString_write_lines [OF nn assms(2)] append_Nil)
qed

theorem SignedString_in_field_order_witness:
  "\<not> len_is_zero (Some [''foo'' \<mapsto> ''bar'', ''santa'' \<mapsto> ''banta''])
   \<and> index_map (Some [''foo'' \<mapsto> ''bar'', ''santa'' \<mapsto> ''banta'']) ''santa'' = Some ''banta''
   \<and> index_map (Some [''foo'' \<mapsto> ''bar'', ''santa'' \<mapsto> ''banta'']) ''foo'' = Some ''bar''
   \<and> SignedString \<lparr>Form = Some [''foo'' \<mapsto> ''bar'', ''santa'' \<mapsto> ''banta''],
                    Fields = [''santa'', ''foo'']\<rparr>
       = Inr ''openid.santa:banta\<newline>openid.foo:bar\<newline>''"
  using SignedString_in_field_order
    [of "\<lparr>Form = Some [''foo'' \<mapsto> ''bar'', ''santa'' \<mapsto> ''banta''],
          Fields = [''santa'', ''foo'']\<rparr>"]
  by (simp add: len_is_zero_def entries_def index_map_def signed_line_def)

text \<open>
  C2.  \<open>SignedString\<close> is all or nothing: when the Form is nil or empty, or some listed
  name is not a key of the Form or is stored with the empty string, the result is the
  empty string, whatever the other listed names are.
\<close>

theorem SignedString_all_or_nothing:
  assumes "Form s = None \<or> len_is_zero (Form s)
     \<or> (\<exists>k\<in>set (Fields s). index_map (Form s) k = None \<or> index_map (Form s) k = Some '''')"
  shows "SignedString s = Inr ''''"
proof (cases "Form s = None \<or> len_is_zero (Form s)")
  case True
  then show ?thesis by (auto simp: SignedString_def Let_def)
next
  case False
  with assms have "SignedString_count (Form s) (Fields s) 0 = None"
    by (intro SignedString_count_missing) blast
  then show ?thesis by (simp add: SignedString_def Let_def)
qed

theorem SignedString_all_or_nothing_witness:
  "SignedString \<lparr>Form = None, Fields = [''foo'']\<rparr> = Inr ''''
   \<and> SignedString \<lparr>Form = Some Map.empty, Fields = [''foo'']\<rparr> = Inr ''''
   \<and> SignedString \<lparr>Form = Some [''foo'' \<mapsto> ''bar''], Fields = [''foo'', ''santa'']\<rparr> = Inr ''''
   \<and> SignedString \<lparr>Form = Some [''foo'' \<mapsto> ''bar'', ''santa'' \<mapsto> ''''],
                    Fields = [''foo'', ''santa'']\<rparr> = Inr ''''"
  using SignedString_all_or_nothing [of "\<lparr>Form = None, Fields = [''foo'']\<rparr>"]
    SignedString_all_or_nothing [of "\<lparr>Form = Some Map.empty, Fields = [''foo'']\<rparr>"]
    SignedString_all_or_nothing
      [of "\<lparr>Form = Some [''foo'' \<mapsto> ''bar''], Fields = [''foo'', ''santa'']\<rparr>"]
    SignedString_all_or_nothing
      [of "\<lparr>Form = Some [''foo'' \<mapsto> ''bar'', ''santa'' \<mapsto> ''''],
            Fields = [''foo'', ''santa'']\<rparr>"]
  by (simp add: len_is_zero_def entries_def index_map_def)

section \<open>The decoder: shape of a decoded sequence\<close>

text \<open>
  A byte starts a rune unless it lies in the range of continuation bytes; checked for
  each of the 256 bytes.
\<close>

lemma RuneStart_byte: "RuneStart (byte c) \<longleftrightarrow> \<not> (0x80 \<le> byte c \<and> byte c \<le> 0xBF)"
proof -
  have "\<forall>c::char. RuneStart (byte c) \<longleftrightarrow> \<not> (0x80 \<le> byte c \<and> byte c \<le> 0xBF)"
    by code_simp
  then show ?thesis by blast
qed

lemma byte_range: "0 \<le> byte c" "byte c < 256"
proof -
  have "byte c mod 256 = byte c"
    unfolding byte_def by (rule of_char_mod_256)
  moreover have "0 \<le> byte c mod 256" "byte c mod 256 < 256" by simp_all
  ultimately show "0 \<le> byte c" "byte c < 256" by simp_all
qed

lemma first_cases:
  "first b = as \<and> b < 0x80 \<or> first b = xx \<or> first b = s1 \<and> 0xC2 \<le> b
   \<or> first b = s2 \<and> 0xC2 \<le> b \<or> first b = s3 \<and> 0xC2 \<le> b \<or> first b = s4 \<and> 0xC2 \<le> b
   \<or> first b = s5 \<and> 0xC2 \<le> b \<or> first b = s6 \<and> 0xC2 \<le> b \<or> first b = s7 \<and> 0xC2 \<le> b"
  by (simp add: first_def)


lemmas utf8_consts = maskx_def mask2_def mask3_def mask4_def locb_def hicb_def xx_def as_def
  s1_def s2_def s3_def s4_def s5_def s6_def s7_def RuneError_def RuneSelf_def UTFMax_def

text \<open>
  What a decoding says about the bytes: either the width is 1 (an ASCII byte, or the error),
  or the width is 2 to 4, the string is that long, the first byte is a lead byte and the
  bytes after it are continuation bytes.
\<close>

lemma decode_multi:
  assumes "first (byte (s ! 0)) \<in> {s1, s2, s3, s4, s5, s6, s7}"
    and "DecodeRuneInString s = (r, w)" and "s \<noteq> []"
  shows "w = 1 \<and> r = RuneError
       \<or> (2 \<le> w \<and> w \<le> 4 \<and> w \<le> int (length s)
           \<and> cont (s ! 1) \<and> (3 \<le> w \<longrightarrow> cont (s ! 2)) \<and> (4 \<le> w \<longrightarrow> cont (s ! 3)))"
proof -
  from assms(1) consider "first (byte (s ! 0)) = s1" | "first (byte (s ! 0)) = s2"
    | "first (byte (s ! 0)) = s3" | "first (byte (s ! 0)) = s4" | "first (byte (s ! 0)) = s5"
    | "first (byte (s ! 0)) = s6" | "first (byte (s ! 0)) = s7" by auto
  then show ?thesis
  proof cases
    case 1
    with assms(2,3) show ?thesis
      by (simp add: DecodeRuneInString_def Let_def utf8_consts acceptRanges_def cont_def
          split: if_splits)
  next
    case 2
    with assms(2,3) show ?thesis
      by (simp add: DecodeRuneInString_def Let_def utf8_consts acceptRanges_def cont_def
          split: if_splits)
  next
    case 3
    with assms(2,3) show ?thesis
      by (simp add: DecodeRuneInString_def Let_def utf8_consts acceptRanges_def cont_def
          split: if_splits)
  next
    case 4
    with assms(2,3) show ?thesis
      by (simp add: DecodeRuneInString_def Let_def utf8_consts acceptRanges_def cont_def
          split: if_splits)
  next
    case 5
    with assms(2,3) show ?thesis
      by (simp add: DecodeRuneInString_def Let_def utf8_consts acceptRanges_def cont_def
          split: if_splits)
  next
    case 6
    with assms(2,3) show ?thesis
      by (simp add: DecodeRuneInString_def Let_def utf8_consts acceptRanges_def cont_def
          split: if_splits)
  next
    case 7
    with assms(2,3) show ?thesis
      by (simp add: DecodeRuneInString_def Let_def utf8_consts acceptRanges_def cont_def
          split: if_splits)
  qed
qed

lemma decode_shape:
  assumes "DecodeRuneInString s = (r, w)" and "s \<noteq> []"
  shows "w = 1 \<and> (byte (s ! 0) < 0x80 \<and> r = byte (s ! 0) \<or> r = RuneError)
       \<or> (2 \<le> w \<and> w \<le> 4 \<and> w \<le> int (length s) \<and> 0xC2 \<le> byte (s ! 0)
           \<and> cont (s ! 1) \<and> (3 \<le> w \<longrightarrow> cont (s ! 2)) \<and> (4 \<le> w \<longrightarrow> cont (s ! 3)))"
proof -
  let ?b0 = "byte (s ! 0)"
  from first_cases [of ?b0] consider
      (ascii) "first ?b0 = as" "?b0 < 0x80"
    | (bad) "first ?b0 = xx"
    | (multi) "0xC2 \<le> ?b0" "first ?b0 \<in> {s1, s2, s3, s4, s5, s6, s7}"
    by auto
  then show ?thesis
  proof cases
    case ascii
    with assms show ?thesis
      by (simp add: DecodeRuneInString_def Let_def utf8_consts)
  next
    case bad
    with assms show ?thesis
      by (auto simp add: DecodeRuneInString_def Let_def utf8_consts)
  next
    case multi
    from decode_multi [OF multi(2) assms] multi(1) show ?thesis by blast
  qed
qed


section \<open>The last rune\<close>

text \<open>
  The backward scan stops at the first byte, counted from the end, that starts a rune.
\<close>

lemma scan_back_stop:
  "0 \<le> j \<Longrightarrow> lim \<le> j \<Longrightarrow> j \<le> start \<Longrightarrow> RuneStart (byte (s ! nat j)) \<Longrightarrow>
   (\<forall>i. j < i \<and> i \<le> start \<longrightarrow> \<not> RuneStart (byte (s ! nat i))) \<Longrightarrow>
   scan_back s lim start = j"
proof (induction s lim start rule: scan_back.induct)
  case (1 s lim start)
  show ?case
  proof (cases "start = j")
    case True
    with "1.prems" show ?thesis by (subst scan_back.simps) simp
  next
    case False
    with "1.prems" have lt: "j < start" by simp
    with "1.prems" have ns: "\<not> RuneStart (byte (s ! nat start))" by simp
    have "scan_back s lim (start - 1) = j"
      using "1.prems" lt ns by (intro "1.IH") auto
    with "1.prems" lt ns show ?thesis by (subst scan_back.simps) simp
  qed
qed

lemma cont_not_start: "cont c \<Longrightarrow> \<not> RuneStart (byte c)" "cont c \<Longrightarrow> \<not> byte c < RuneSelf"
  by (simp_all add: RuneStart_byte cont_def RuneSelf_def)

lemma lead_start: "0xC2 \<le> byte c \<Longrightarrow> RuneStart (byte c)"
  by (simp add: RuneStart_byte)

text \<open>
  When a string ends with one well-formed sequence, \<open>DecodeLastRuneInString\<close> finds its
  first byte and returns the rune and width that \<open>DecodeRuneInString\<close> returns on it.
\<close>

lemma DecodeLast_single:
  assumes dec: "DecodeRuneInString e = (r, w)" and ok: "\<not> (r = RuneError \<and> w = 1)"
    and ne: "e \<noteq> []" and len: "w = int (length e)"
  shows "DecodeLastRuneInString (p @ e) = (r, w)"
proof -
  from decode_shape [OF dec ne] ok consider
      (one) "w = 1" "byte (e ! 0) < 0x80" "r = byte (e ! 0)"
    | (more) "2 \<le> w" "w \<le> 4" "0xC2 \<le> byte (e ! 0)" "cont (e ! 1)"
        "3 \<le> w \<longrightarrow> cont (e ! 2)" "4 \<le> w \<longrightarrow> cont (e ! 3)"
    by blast
  then show ?thesis
  proof cases
    case one
    with len obtain c where e: "e = [c]" by (cases e) auto
    with one show ?thesis
      by (simp add: DecodeLastRuneInString_def Let_def RuneSelf_def)
  next
    case more
    let ?s = "p @ e"
    let ?n = "int (length p)"
    have conts: "cont (e ! k)" if "1 \<le> k" "k < length e" for k
    proof -
      from that len more(2) have "k = 1 \<or> k = 2 \<or> k = 3" by arith
      with that len more show ?thesis by auto
    qed
    have last_cont: "cont (?s ! nat (?n + w - 1))"
    proof -
      have "nat (?n + w - 1) = length p + (length e - 1)"
        using len more(1) by arith
      then have "?s ! nat (?n + w - 1) = e ! (length e - 1)"
        by (simp only: nth_append_length_plus)
      with conts [of "length e - 1"] len more(1) show ?thesis by simp
    qed
    have scan: "scan_back ?s (if ?n + w - UTFMax < 0 then 0 else ?n + w - UTFMax) (?n + w - 1 - 1) = ?n"
    proof (rule scan_back_stop)
      show "0 \<le> ?n" by simp
      show "(if ?n + w - UTFMax < 0 then 0 else ?n + w - UTFMax) \<le> ?n"
        using more(2) by (simp add: UTFMax_def)
      show "?n \<le> ?n + w - 1 - 1" using more(1) by simp
      show "RuneStart (byte (?s ! nat ?n))"
        using more(3) ne by (simp add: lead_start nth_append)
      show "\<forall>i. ?n < i \<and> i \<le> ?n + w - 1 - 1 \<longrightarrow> \<not> RuneStart (byte (?s ! nat i))"
      proof (intro allI impI)
        fix i assume i: "?n < i \<and> i \<le> ?n + w - 1 - 1"
        then have ni: "nat i = length p + (nat i - length p)" by arith
        have "?s ! (length p + (nat i - length p)) = e ! (nat i - length p)"
          by (rule nth_append_length_plus)
        with ni have "?s ! nat i = e ! (nat i - length p)" by simp
        moreover have "1 \<le> nat i - length p" "nat i - length p < length e"
          using i len by arith+
        then have "cont (e ! (nat i - length p))" by (rule conts)
        ultimately show "\<not> RuneStart (byte (?s ! nat i))"
          by (simp add: cont_not_start)
      qed
    qed
    have len_s: "int (length ?s) = ?n + w" using len by simp
    have nz: "?n + w \<noteq> 0" using more(1) by simp
    have drop_s: "drop (nat ?n) ?s = e" by simp
    have nlt: "\<not> byte (?s ! nat (?n + w - 1)) < RuneSelf"
      using last_cont by (rule cont_not_start)
    show ?thesis
      unfolding DecodeLastRuneInString_def Let_def len_s
      by (simp only: nz nlt if_False scan drop_s) (simp add: dec)
  qed
qed


lemma runes_nonempty: "s \<noteq> [] \<Longrightarrow> runes s \<noteq> []"
  by (cases s) (auto split: prod.splits)

lemma decode_width:
  assumes "DecodeRuneInString s = (r, w)" and "s \<noteq> []"
  shows "1 \<le> w" and "w \<le> int (length s)"
  using decode_shape [OF assms] assms(2) by (cases s; auto)+

text \<open>
  On a valid string the rune decoded from the end is the last of the runes decoded from
  the start.
\<close>

lemma DecodeLast_suffix:
  "ValidString t \<Longrightarrow> t \<noteq> [] \<Longrightarrow> fst (DecodeLastRuneInString (p @ t)) = last (runes t)"
proof (induction t arbitrary: p rule: ValidString.induct)
  case 1
  then show ?case by simp
next
  case (2 c cs)
  obtain r w where dec: "DecodeRuneInString (c # cs) = (r, w)" by (cases "DecodeRuneInString (c # cs)")
  let ?t' = "drop (nat w - 1) cs"
  from "2.prems"(1) dec have ok: "\<not> (r = RuneError \<and> w = 1)" and valid': "ValidString ?t'"
    by (auto split: if_splits)
  from decode_width [OF dec] have w: "1 \<le> w" "w \<le> int (length (c # cs))" by simp_all
  have rs: "runes (c # cs) = r # runes ?t'" using dec by simp
  show ?case
  proof (cases "?t' = []")
    case True
    with w have "w = int (length (c # cs))" by simp
    from DecodeLast_single [OF dec ok _ this, of p] True rs show ?thesis by simp
  next
    case False
    have split: "c # cs = take (nat w) (c # cs) @ ?t'"
      using w by (cases "nat w") (simp_all add: drop_Suc)
    have "fst (DecodeLastRuneInString ((p @ take (nat w) (c # cs)) @ ?t')) = last (runes ?t')"
      using dec [symmetric] ok valid' False by (rule "2.IH")
    moreover have "(p @ take (nat w) (c # cs)) @ ?t' = p @ c # cs"
      using split by simp
    ultimately show ?thesis
      using rs runes_nonempty [OF False] by simp
  qed
qed

lemma last_char_decode:
  "ValidString s \<Longrightarrow> s \<noteq> [] \<Longrightarrow> last_char s = Some (fst (DecodeLastRuneInString s))"
  using DecodeLast_suffix [of s "[]"] runes_nonempty [of s]
  by (auto simp: last_char_def split: list.splits)

lemma first_char_decode:
  "s \<noteq> [] \<Longrightarrow> first_char s = Some (fst (DecodeRuneInString s))"
  by (cases s) (auto simp: first_char_def split: prod.splits)

section \<open>Validate\<close>

lemma IndexByteString_mem: "0 \<le> IndexByteString s c \<longleftrightarrow> c \<in> set s"
  by (induction s) (auto simp: Let_def)

lemma ContainsRune_newline: "ContainsRune k 0x0A \<longleftrightarrow> CHR 0x0A \<in> set k"
  by (simp add: ContainsRune_def IndexRune_def RuneSelf_def IndexByteString_mem char_of_def)

lemma ContainsRune_colon: "ContainsRune k 0x3A \<longleftrightarrow> CHR '':'' \<in> set k"
  by (simp add: ContainsRune_def IndexRune_def RuneSelf_def IndexByteString_mem char_of_def)

lemma decode_empty:
  "DecodeRuneInString [] = (RuneError, 0)" "DecodeLastRuneInString [] = (RuneError, 0)"
  by (simp_all add: DecodeRuneInString_def DecodeLastRuneInString_def)

lemma not_IsSpace_RuneError: "\<not> IsSpace RuneError"
  by (simp add: IsSpace_def RuneError_def uint32_def MaxLatin1_def White_Space_excluding_Latin_def)

lemma chars_empty: "first_char [] = None" "last_char [] = None"
  by (simp_all add: first_char_def last_char_def)

lemma space_at_ends:
  assumes "ValidString s"
  shows "IsSpace (fst (DecodeLastRuneInString s)) \<or> IsSpace (fst (DecodeRuneInString s))
         \<longleftrightarrow> surrounded_by_whitespace s"
proof (cases "s = []")
  case True
  then show ?thesis
    by (simp add: decode_empty not_IsSpace_RuneError surrounded_by_whitespace_def chars_empty
        is_whitespace_def)
next
  case False
  with assms show ?thesis
    by (auto simp: surrounded_by_whitespace_def is_whitespace_def last_char_decode first_char_decode)
qed

text \<open>
  The body of the loop lets a pair pass exactly when the pair violates no rule.
\<close>

lemma Validate_entry_None_iff: "Validate_entry k v = None \<longleftrightarrow> \<not> violates k v"
proof (cases "v = [] \<or> \<not> ValidString k \<or> \<not> ValidString v \<or> has_colon_or_newline k")
  case True
  then show ?thesis
    by (auto simp: Validate_entry_def violates_def has_colon_or_newline_def
        ContainsRune_newline ContainsRune_colon)
next
  case False
  then have "Validate_entry k v = None \<longleftrightarrow>
      \<not> (IsSpace (fst (DecodeLastRuneInString k)) \<or> IsSpace (fst (DecodeRuneInString k)))
      \<and> \<not> (IsSpace (fst (DecodeLastRuneInString v)) \<or> IsSpace (fst (DecodeRuneInString v)))"
    by (simp add: Validate_entry_def has_colon_or_newline_def ContainsRune_newline ContainsRune_colon)
  with False show ?thesis
    by (simp add: violates_def space_at_ends)
qed

lemma Validate_range_None_iff:
  "Validate_range ps = None \<longleftrightarrow> (\<forall>(k, v)\<in>set ps. Validate_entry k v = None)"
  by (induction ps) (auto split: option.splits)

lemma range_order_mem:
  "range_order f ps \<Longrightarrow> (k, v) \<in> set ps \<longleftrightarrow> index_map f k = Some v"
  by (auto simp: range_order_graph(2) Map.graph_def index_map_def)

lemma Form_Validate_None_iff:
  assumes "range_order f ps"
  shows "Form_Validate f ps = None \<longleftrightarrow> (\<forall>k v. index_map f k = Some v \<longrightarrow> \<not> violates k v)"
proof -
  have "Validate_range ps = None \<longleftrightarrow> (\<forall>k v. (k, v) \<in> set ps \<longrightarrow> \<not> violates k v)"
    by (auto simp: Validate_range_None_iff Validate_entry_None_iff)
  then show ?thesis
    by (simp add: Form_Validate_def range_order_mem [OF assms])
qed

text \<open>
  The table of \<open>FormValidateTests\<close> (and of \<open>MessageValidateTests\<close>, which has the same
  rows) of the package's tests: the model accepts and rejects what the tests expect.
\<close>

lemma FormValidateTests:
  "Validate_range [(''foo'', ''bar'')] = None"
  "Validate_range [] = None"
  "Validate_range [(''f:oo'', ''bar'')] \<noteq> None"
  "Validate_range [(''f\<newline>oo'', ''bar'')] \<noteq> None"
  "Validate_range [('' foo'', ''bar'')] \<noteq> None"
  "Validate_range [(''foo '', ''bar'')] \<noteq> None"
  "Validate_range [(''foo'', '' bar'')] \<noteq> None"
  "Validate_range [(''foo'', ''bar '')] \<noteq> None"
  "Validate_range [(''foo'' @ [CHR 0xFF], ''bar'')] \<noteq> None"
  "Validate_range [(''foo'', ''ba'' @ [CHR 0xFE] @ ''r'')] \<noteq> None"
  by code_simp+

lemma violates_foo_bar: "\<not> violates ''foo'' ''bar''"
  by code_simp

lemma violates_leading_space: "violates ''foo'' '' bar''"
  by code_simp

text \<open>
  C3.  Whatever the order in which the loop visits the entries, \<open>Validate\<close> returns an
  error if and only if some pair of the Form violates a rule: an empty value, a key or a
  value that is not valid UTF-8, a key that contains a colon or a newline, or a key or a
  value whose first or last character is whitespace.  It succeeds when every pair
  satisfies all of the rules, as for the empty mapping and for \<open>{"foo": "bar"}\<close>.
\<close>

theorem Form_Validate_error_iff:
  assumes "range_order f ps"
  shows "Form_Validate f ps \<noteq> None \<longleftrightarrow> (\<exists>k v. index_map f k = Some v \<and> violates k v)"
  by (simp add: Form_Validate_None_iff [OF assms])

theorem Form_Validate_error_iff_witness:
  "range_order (Some Map.empty) []
   \<and> Form_Validate (Some Map.empty) [] = None
   \<and> range_order (Some [''foo'' \<mapsto> ''bar'']) [(''foo'', ''bar'')]
   \<and> Form_Validate (Some [''foo'' \<mapsto> ''bar'']) [(''foo'', ''bar'')] = None
   \<and> range_order (Some [''foo'' \<mapsto> '' bar'']) [(''foo'', '' bar'')]
   \<and> Form_Validate (Some [''foo'' \<mapsto> '' bar'']) [(''foo'', '' bar'')] \<noteq> None"
  using Form_Validate_error_iff [of "Some Map.empty" "[]"]
    Form_Validate_error_iff [of "Some [''foo'' \<mapsto> ''bar'']" "[(''foo'', ''bar'')]"]
    Form_Validate_error_iff [of "Some [''foo'' \<mapsto> '' bar'']" "[(''foo'', '' bar'')]"]
  by (auto simp: range_order_def entries_def index_map_def violates_foo_bar violates_leading_space split: if_splits)

lemma rules_foo_separators:
  "ValidString ''foo''" "ValidString ''b:a\<newline>r''" "\<not> has_colon_or_newline ''foo''"
  "\<not> surrounded_by_whitespace ''foo''" "\<not> surrounded_by_whitespace ''b:a\<newline>r''"
  "has_interior_colon_or_newline ''b:a\<newline>r''"
  by code_simp+

text \<open>
  C6.  A colon or a newline strictly inside a value is not rejected: when every pair of
  the Form satisfies the other rules (non-empty value, valid UTF-8, no colon or newline
  in the key, no whitespace at either end of key or value) and some value has a colon or
  a newline in its interior, \<open>Validate\<close> succeeds.
\<close>

theorem Validate_ignores_separators_in_values:
  assumes "range_order f ps"
    and "\<forall>k v. index_map f k = Some v \<longrightarrow>
           v \<noteq> '''' \<and> ValidString k \<and> ValidString v \<and> \<not> has_colon_or_newline k
           \<and> \<not> surrounded_by_whitespace k \<and> \<not> surrounded_by_whitespace v"
    and "\<exists>k v. index_map f k = Some v \<and> has_interior_colon_or_newline v"
  shows "Form_Validate f ps = None"
  using assms(2) by (simp add: Form_Validate_None_iff [OF assms(1)] violates_def)

theorem Validate_ignores_separators_in_values_witness:
  "range_order (Some [''foo'' \<mapsto> ''b:a\<newline>r'']) [(''foo'', ''b:a\<newline>r'')]
   \<and> has_interior_colon_or_newline ''b:a\<newline>r''
   \<and> Form_Validate (Some [''foo'' \<mapsto> ''b:a\<newline>r'']) [(''foo'', ''b:a\<newline>r'')] = None"
  using Validate_ignores_separators_in_values
    [of "Some [''foo'' \<mapsto> ''b:a\<newline>r'']" "[(''foo'', ''b:a\<newline>r'')]"]
  by (auto simp: range_order_def entries_def index_map_def rules_foo_separators simp del: ValidString.simps
      split: if_splits)

lemma empty_key_rules:
  "ValidString ''''" "\<not> has_colon_or_newline ''''" "\<not> surrounded_by_whitespace ''''"
  by (simp_all add: has_colon_or_newline_def surrounded_by_whitespace_def chars_empty
      is_whitespace_def)

lemma rules_bar: "ValidString ''bar''" "\<not> surrounded_by_whitespace ''bar''"
  by code_simp+

lemma range_order_two:
  "k \<noteq> k' \<Longrightarrow> range_order (Some [k \<mapsto> v, k' \<mapsto> v']) [(k, v), (k', v')]"
  "k \<noteq> k' \<Longrightarrow> range_order (Some [k \<mapsto> v, k' \<mapsto> v']) [(k', v'), (k, v)]"
  by (auto simp: range_order_def entries_def fun_eq_iff)

text \<open>
  C10, as the claim states it, fails: the Form \<open>{"": "bar", "k": ""}\<close> contains the empty
  key with a value that satisfies the value rules, and \<open>Validate\<close> returns an error for
  it, because of the empty value of the other entry.
\<close>

theorem Validate_empty_key_other_entry_fails:
  "range_order (Some ['''' \<mapsto> ''bar'', ''k'' \<mapsto> '''']) [('''', ''bar''), (''k'', '''')]
   \<and> index_map (Some ['''' \<mapsto> ''bar'', ''k'' \<mapsto> '''']) '''' = Some ''bar''
   \<and> ''bar'' \<noteq> '''' \<and> ValidString ''bar'' \<and> \<not> surrounded_by_whitespace ''bar''
   \<and> Form_Validate (Some ['''' \<mapsto> ''bar'', ''k'' \<mapsto> '''']) [('''', ''bar''), (''k'', '''')]
       \<noteq> None"
proof -
  have "Validate_range [('''', ''bar''), (''k'', '''')] \<noteq> None" by code_simp
  then show ?thesis
    by (simp add: range_order_two index_map_def entries_def rules_bar Form_Validate_def
        del: ValidString.simps Validate_range.simps)
qed

text \<open>
  C10, amended.  For every Form that contains the key \<open>""\<close> with a value that satisfies
  the value rules (non-empty, valid UTF-8, no whitespace at either end) and whose other
  entries violate no rule, \<open>Validate\<close> returns success, whatever the order of the loop:
  decoding the first or the last rune of the empty key gives \<open>RuneError\<close>, which is not
  whitespace, so the entry with the empty key passes.  \<open>String\<close> writes that entry as the
  line \<open>:value\<close> with nothing before the colon.
\<close>

theorem Validate_accepts_empty_key:
  assumes "range_order f ps" and "index_map f '''' = Some v"
    and "v \<noteq> ''''" and "ValidString v" and "\<not> surrounded_by_whitespace v"
    and "\<forall>k v'. k \<noteq> '''' \<and> index_map f k = Some v' \<longrightarrow> \<not> violates k v'"
  shows "DecodeRuneInString '''' = (RuneError, 0) \<and> DecodeLastRuneInString '''' = (RuneError, 0)
     \<and> \<not> IsSpace RuneError
     \<and> Validate_entry '''' v = None
     \<and> Form_Validate f ps = None
     \<and> Form_String f ps' ps = Inr (concat (map kv_line ps))
     \<and> ('''', v) \<in> set ps \<and> kv_line ('''', v) = '':'' @ v @ ''\<newline>''"
proof -
  have nv: "\<not> violates '''' v"
    using assms(3-5) by (simp add: violates_def empty_key_rules)
  then have entry: "Validate_entry '''' v = None"
    by (simp add: Validate_entry_None_iff)
  have "\<forall>k v'. index_map f k = Some v' \<longrightarrow> \<not> violates k v'"
    using nv assms(2,6) by (metis option.inject)
  then have all: "Form_Validate f ps = None"
    by (simp add: Form_Validate_None_iff [OF assms(1)])
  have ne: "\<not> len_is_zero f"
    using assms(2) by (auto simp: len_is_zero_def index_map_def)
  have "0 \<le> String_count ps' 0" by (rule String_count_mono)
  with ne have str: "Form_String f ps' ps = Inr (concat (map kv_line ps))"
    by (auto simp: Form_String_def Grow_def String_write_lines len_is_zero_def entries_def)
  have mem: "('''', v) \<in> set ps"
    using assms(2) by (simp add: range_order_mem [OF assms(1)])
  show ?thesis
    using entry all str mem
    by (simp only: decode_empty not_IsSpace_RuneError kv_line_def fst_conv snd_conv append_Nil
        simp_thms)
qed

theorem Validate_accepts_empty_key_witness:
  "range_order (Some ['''' \<mapsto> ''bar'', ''foo'' \<mapsto> ''bar'']) [('''', ''bar''), (''foo'', ''bar'')]
   \<and> Form_Validate (Some ['''' \<mapsto> ''bar'', ''foo'' \<mapsto> ''bar''])
         [('''', ''bar''), (''foo'', ''bar'')] = None
   \<and> Form_String (Some ['''' \<mapsto> ''bar'', ''foo'' \<mapsto> ''bar''])
         [(''foo'', ''bar''), ('''', ''bar'')] [('''', ''bar''), (''foo'', ''bar'')]
       = Inr '':bar\<newline>foo:bar\<newline>''
   \<and> range_order (Some ['''' \<mapsto> ''bar'']) [('''', ''bar'')]
   \<and> Form_Validate (Some ['''' \<mapsto> ''bar'']) [('''', ''bar'')] = None
   \<and> Form_String (Some ['''' \<mapsto> ''bar'']) [('''', ''bar'')] [('''', ''bar'')] = Inr '':bar\<newline>''"
proof -
  have others: "\<forall>k v'. k \<noteq> '''' \<and> index_map (Some ['''' \<mapsto> ''bar'', ''foo'' \<mapsto> ''bar'']) k = Some v'
      \<longrightarrow> \<not> violates k v'"
    by (auto simp: index_map_def entries_def violates_foo_bar split: if_splits)
  have r: "range_order (Some ['''' \<mapsto> ''bar'', ''foo'' \<mapsto> ''bar'']) [('''', ''bar''), (''foo'', ''bar'')]"
    by (simp add: range_order_two)
  have i: "index_map (Some ['''' \<mapsto> ''bar'', ''foo'' \<mapsto> ''bar'']) '''' = Some ''bar''"
    by (simp add: index_map_def entries_def)
  from Validate_accepts_empty_key [OF r i _ rules_bar others,
      of "[(''foo'', ''bar''), ('''', ''bar'')]"]
    Validate_accepts_empty_key
      [of "Some ['''' \<mapsto> ''bar'']" "[('''', ''bar'')]" "''bar''" "[('''', ''bar'')]"]
    r
  show ?thesis
    by (simp add: range_order_def entries_def index_map_def rules_bar kv_line_def
      del: ValidString.simps)
qed

section \<open>Message and Form\<close>

lemma Message_Validate_entry_eq: "Message_Validate_entry k v = Validate_entry k v"
  by (simp only: Message_Validate_entry_def Validate_entry_def)

lemma Message_Validate_range_eq: "Message_Validate_range ps = Validate_range ps"
  by (induction ps) (auto simp: Message_Validate_entry_eq split: option.splits)

lemma Message_String_count_eq: "Message_String_count ps n = String_count ps n"
  by (induction ps arbitrary: n)
     (auto simp: Message_colon_def colon_def Message_newline_def newline_def)

lemma Message_String_write_eq: "Message_String_write ps buf = String_write ps buf"
  by (induction ps arbitrary: buf)
     (auto simp: Message_colon_def colon_def Message_newline_def newline_def)

lemma range_order_empty: "range_order f ps \<Longrightarrow> len_is_zero f \<Longrightarrow> ps = []"
  by (cases ps) (auto simp: range_order_def len_is_zero_def)

lemma Form_String_range:
  assumes "range_order f ps2"
  shows "Form_String f ps1 ps2 = Inr (concat (map kv_line ps2))"
proof (cases "len_is_zero f")
  case True
  with range_order_empty [OF assms] show ?thesis
    by (simp add: Form_String_def)
next
  case False
  have "0 \<le> String_count ps1 0" by (rule String_count_mono)
  with False show ?thesis
    by (auto simp: Form_String_def Grow_def String_write_lines len_is_zero_def entries_def)
qed

text \<open>
  C9, as the claim states it, fails: the two \<open>String\<close>s are two calls, each with its own
  order of visiting the map, and on \<open>{"a": "1", "b": "2"}\<close> the one can return
  \<open>a:1\<newline>b:2\<newline>\<close> while the other returns \<open>b:2\<newline>a:1\<newline>\<close>.
\<close>

theorem Message_String_order_differs:
  "range_order (Some [''a'' \<mapsto> ''1'', ''b'' \<mapsto> ''2'']) [(''a'', ''1''), (''b'', ''2'')]
   \<and> range_order (Some [''a'' \<mapsto> ''1'', ''b'' \<mapsto> ''2'']) [(''b'', ''2''), (''a'', ''1'')]
   \<and> Message_String (Some [''a'' \<mapsto> ''1'', ''b'' \<mapsto> ''2''])
         [(''a'', ''1''), (''b'', ''2'')] [(''a'', ''1''), (''b'', ''2'')] = Inr ''a:1\<newline>b:2\<newline>''
   \<and> Form_String (Some [''a'' \<mapsto> ''1'', ''b'' \<mapsto> ''2''])
         [(''a'', ''1''), (''b'', ''2'')] [(''b'', ''2''), (''a'', ''1'')] = Inr ''b:2\<newline>a:1\<newline>''
   \<and> Message_String (Some [''a'' \<mapsto> ''1'', ''b'' \<mapsto> ''2''])
         [(''a'', ''1''), (''b'', ''2'')] [(''a'', ''1''), (''b'', ''2'')]
       \<noteq> Form_String (Some [''a'' \<mapsto> ''1'', ''b'' \<mapsto> ''2''])
         [(''a'', ''1''), (''b'', ''2'')] [(''b'', ''2''), (''a'', ''1'')]"
proof -
  have ne: "\<not> len_is_zero (Some [''a'' \<mapsto> ''1'', ''b'' \<mapsto> ''2''])"
    by (simp add: len_is_zero_def entries_def)
  have r: "range_order (Some [''a'' \<mapsto> ''1'', ''b'' \<mapsto> ''2'']) [(''a'', ''1''), (''b'', ''2'')]"
    "range_order (Some [''a'' \<mapsto> ''1'', ''b'' \<mapsto> ''2'']) [(''b'', ''2''), (''a'', ''1'')]"
    by (simp_all add: range_order_two)
  have m: "Message_String (Some [''a'' \<mapsto> ''1'', ''b'' \<mapsto> ''2''])
         [(''a'', ''1''), (''b'', ''2'')] [(''a'', ''1''), (''b'', ''2'')] = Inr ''a:1\<newline>b:2\<newline>''"
    using ne
    by (simp add: Message_String_def Grow_def RuneLen_def Message_colon_def rune1Max_def
        Message_newline_def WriteString_def WriteRune_def uint32_def RuneSelf_def char_of_def)
  have f: "Form_String (Some [''a'' \<mapsto> ''1'', ''b'' \<mapsto> ''2''])
         [(''a'', ''1''), (''b'', ''2'')] [(''b'', ''2''), (''a'', ''1'')] = Inr ''b:2\<newline>a:1\<newline>''"
    using ne
    by (simp add: Form_String_def Grow_def RuneLen_colon newline_def WriteString_def WriteRune_colon)
  show ?thesis
    unfolding m f using r by simp
qed

lemma same_entries_at_most_one:
  "set ps = set ps' \<Longrightarrow> length ps = length ps' \<Longrightarrow> length ps \<le> 1 \<Longrightarrow> ps = ps'"
  by (cases ps; cases ps') auto

text \<open>
  C9, amended.  \<open>Message\<close> and \<open>Form\<close> are duplicates of one concept: \<open>Get\<close>, \<open>Set\<close> and
  \<open>Del\<close> agree on every input (the nil map included); \<open>Validate\<close> succeeds for the one
  exactly when it succeeds for the other, whatever the orders of the two loops, and
  returns the same error when the orders are the same; \<open>String\<close> returns the same string
  when the two calls visit the entries in the same order, and for any two orders the two
  strings are made of the same lines, each once, so they are equal whenever the map has
  at most one entry.
\<close>

theorem Message_agrees_with_Form:
  "Message_Get m key = Form_Get m key
   \<and> Message_Set m key val = Form_Set m key val
   \<and> Message_Del m key = Form_Del m key
   \<and> Message_Validate m ps = Form_Validate m ps
   \<and> Message_String m ps1 ps2 = Form_String m ps1 ps2
   \<and> (range_order m ps \<and> range_order m ps' \<longrightarrow>
        (Message_Validate m ps = None \<longleftrightarrow> Form_Validate m ps' = None))
   \<and> (range_order m ps2 \<and> range_order m ps2' \<longrightarrow>
        Message_String m ps1 ps2 = Inr (concat (map kv_line ps2))
        \<and> Form_String m ps1' ps2' = Inr (concat (map kv_line ps2'))
        \<and> set ps2 = set ps2' \<and> distinct ps2 \<and> distinct ps2' \<and> length ps2 = length ps2')
   \<and> (range_order m ps2 \<and> range_order m ps2' \<and> length ps2 \<le> 1 \<longrightarrow>
        Message_String m ps1 ps2 = Form_String m ps1' ps2')"
proof -
  have get: "Message_Get m key = Form_Get m key"
    by (simp only: Message_Get_def Form_Get_def)
  have set: "Message_Set m key val = Form_Set m key val"
    by (simp only: Message_Set_def Form_Set_def)
  have del: "Message_Del m key = Form_Del m key"
    by (simp only: Message_Del_def Form_Del_def)
  have val: "Message_Validate m qs = Form_Validate m qs" for qs
    by (simp add: Message_Validate_def Form_Validate_def Message_Validate_range_eq)
  have str: "Message_String m qs1 qs2 = Form_String m qs1 qs2" for qs1 qs2
    by (simp add: Message_String_def Form_String_def Message_String_count_eq
        Message_String_write_eq split: sum.splits)
  have val2: "Message_Validate m ps = None \<longleftrightarrow> Form_Validate m ps' = None"
    if "range_order m ps" "range_order m ps'"
    using that by (simp add: val Form_Validate_None_iff)
  have str2: "Message_String m ps1 ps2 = Inr (concat (map kv_line ps2))
        \<and> Form_String m ps1' ps2' = Inr (concat (map kv_line ps2'))
        \<and> set ps2 = set ps2' \<and> distinct ps2 \<and> distinct ps2' \<and> length ps2 = length ps2'"
    if "range_order m ps2" "range_order m ps2'"
    using that by (simp add: str Form_String_range range_order_graph)
  have str3: "Message_String m ps1 ps2 = Form_String m ps1' ps2'"
    if "range_order m ps2" "range_order m ps2'" "length ps2 \<le> 1"
  proof -
    from str2 [OF that(1,2)] that(3) have "ps2 = ps2'"
      by (intro same_entries_at_most_one) simp_all
    with str2 [OF that(1,2)] show ?thesis by simp
  qed
  from get set del val str val2 str2 str3 show ?thesis by blast
qed

theorem Message_agrees_with_Form_witness:
  "Message_Get (Some [''foo'' \<mapsto> ''bar'']) ''foo'' = ''bar''
   \<and> Form_Get (Some [''foo'' \<mapsto> ''bar'']) ''foo'' = ''bar''
   \<and> Message_Set None ''foo'' ''bar'' = Form_Set None ''foo'' ''bar''
   \<and> Message_Del (Some [''foo'' \<mapsto> ''bar'']) ''foo'' = Form_Del (Some [''foo'' \<mapsto> ''bar'']) ''foo''
   \<and> range_order (Some [''foo'' \<mapsto> ''bar'']) [(''foo'', ''bar'')]
   \<and> Message_Validate (Some [''foo'' \<mapsto> ''bar'']) [(''foo'', ''bar'')] = None
   \<and> Form_Validate (Some [''foo'' \<mapsto> ''bar'']) [(''foo'', ''bar'')] = None
   \<and> Message_String (Some [''foo'' \<mapsto> ''bar'']) [(''foo'', ''bar'')] [(''foo'', ''bar'')]
       = Inr ''foo:bar\<newline>''
   \<and> Form_String (Some [''foo'' \<mapsto> ''bar'']) [(''foo'', ''bar'')] [(''foo'', ''bar'')]
       = Inr ''foo:bar\<newline>''
   \<and> range_order (Some [''a'' \<mapsto> ''1'', ''b'' \<mapsto> ''2'']) [(''a'', ''1''), (''b'', ''2'')]
   \<and> range_order (Some [''a'' \<mapsto> ''1'', ''b'' \<mapsto> ''2'']) [(''b'', ''2''), (''a'', ''1'')]
   \<and> (Message_Validate (Some [''a'' \<mapsto> ''1'', ''b'' \<mapsto> ''2'']) [(''a'', ''1''), (''b'', ''2'')] = None)
       = (Form_Validate (Some [''a'' \<mapsto> ''1'', ''b'' \<mapsto> ''2'']) [(''b'', ''2''), (''a'', ''1'')] = None)
   \<and> Message_String (Some [''a'' \<mapsto> ''1'', ''b'' \<mapsto> ''2''])
         [(''a'', ''1''), (''b'', ''2'')] [(''a'', ''1''), (''b'', ''2'')] = Inr ''a:1\<newline>b:2\<newline>''
   \<and> Form_String (Some [''a'' \<mapsto> ''1'', ''b'' \<mapsto> ''2''])
         [(''b'', ''2''), (''a'', ''1'')] [(''b'', ''2''), (''a'', ''1'')] = Inr ''b:2\<newline>a:1\<newline>''
   \<and> set [(''a'', ''1''), (''b'', ''2'')] = set [(''b'', ''2''), (''a'', ''1'')]"
proof -
  let ?m1 = "Some [''foo'' \<mapsto> ''bar'']"
  let ?p1 = "[(''foo'', ''bar'')]"
  let ?m2 = "Some [''a'' \<mapsto> ''1'', ''b'' \<mapsto> ''2'']"
  let ?ab = "[(''a'', ''1''), (''b'', ''2'')]"
  let ?ba = "[(''b'', ''2''), (''a'', ''1'')]"
  have v: "Form_Validate ?m1 ?p1 = None"
    by code_simp
  have g: "Form_Get ?m1 ''foo'' = ''bar''"
    by (simp add: Form_Get_def index_map_def entries_def)
  have r: "range_order ?m1 ?p1"
    by (simp add: range_order_def entries_def)
  have r2: "range_order ?m2 ?ab" "range_order ?m2 ?ba"
    by (simp_all add: range_order_two)
  note A = Message_agrees_with_Form [of ?m1 "''foo''" "''bar''" ?p1 ?p1 ?p1 ?p1 ?p1 ?p1]
  note B = Message_agrees_with_Form [of None "''foo''" "''bar''"]
  note C = Message_agrees_with_Form [of ?m2 "''a''" "''1''" ?ab ?ab ?ab ?ba ?ba ?ba]
  from A g have c1: "Message_Get ?m1 ''foo'' = ''bar''" by simp
  from B have c3: "Message_Set None ''foo'' ''bar'' = Form_Set None ''foo'' ''bar''" by blast
  from A have c4: "Message_Del ?m1 ''foo'' = Form_Del ?m1 ''foo''" by blast
  from A v have c6: "Message_Validate ?m1 ?p1 = None" by simp
  from A r have "Message_String ?m1 ?p1 ?p1 = Inr (concat (map kv_line ?p1))"
    and "Form_String ?m1 ?p1 ?p1 = Inr (concat (map kv_line ?p1))" by blast+
  then have c8: "Message_String ?m1 ?p1 ?p1 = Inr ''foo:bar\<newline>''"
    and c9: "Form_String ?m1 ?p1 ?p1 = Inr ''foo:bar\<newline>''"
    by (simp_all add: kv_line_def)
  from C r2 have c12: "(Message_Validate ?m2 ?ab = None) = (Form_Validate ?m2 ?ba = None)"
    by blast
  from C r2 have "Message_String ?m2 ?ab ?ab = Inr (concat (map kv_line ?ab))"
    and "Form_String ?m2 ?ba ?ba = Inr (concat (map kv_line ?ba))"
    and c15: "set ?ab = set ?ba" by blast+
  then have c13: "Message_String ?m2 ?ab ?ab = Inr ''a:1\<newline>b:2\<newline>''"
    and c14: "Form_String ?m2 ?ba ?ba = Inr ''b:2\<newline>a:1\<newline>''"
    by (simp_all add: kv_line_def)
  from c1 g c3 c4 r c6 v c8 c9 r2 c12 c13 c14 c15 show ?thesis
    by (intro conjI)
qed

end
